theory Spec2Isabelle
  imports Main
begin

section \<open>A TCP key-value server (SET / GET / DEL), one file per key\<close>

text \<open>
  The repository holds two variants of the same server: \<^verbatim>\<open>server2.c\<close> (small functions,
  status codes, a retrying write, shutdown on SIGINT) and \<^verbatim>\<open>servidor.c\<close> (one function,
  a single write, no shutdown). Both are embedded here. C strings are \<open>char list\<close>s; a
  function that reads a C string stops at the first NUL byte (\<open>cstr\<close>). Pointers that may
  be NULL are \<open>option\<close>s. The file system and the socket are explicit values handed to the
  functions and returned by them.
\<close>

subsection \<open>Constants and data (server2.c, lines 18-32)\<close>

definition BUFFER_SIZE :: nat where
  "BUFFER_SIZE = 1024"

datatype Command = CMD_INVALID | CMD_SET | CMD_GET | CMD_DEL

text \<open>
  \<^verbatim>\<open>char key[100]; char value[BUFFER_SIZE];\<close> Each field of the record is the text the array
  holds before its first NUL.
\<close>

record Request =
  cmd :: Command
  key :: string
  val :: string

subsection \<open>C strings and character classes\<close>

definition NUL :: char where
  "NUL = CHR 0x00"

text \<open>The text of a C string: the bytes before the first NUL.\<close>

definition cstr :: "string \<Rightarrow> string" where
  "cstr bs = takeWhile (\<lambda>c. c \<noteq> NUL) bs"

text \<open>\<^verbatim>\<open>isspace\<close> in the C locale: space, \<^verbatim>\<open>\t \n \v \f \r\<close>.\<close>

definition isspace :: "char \<Rightarrow> bool" where
  "isspace c \<longleftrightarrow>
     c = CHR 0x20 \<or> c = CHR 0x09 \<or> c = CHR 0x0A \<or> c = CHR 0x0B \<or> c = CHR 0x0C \<or> c = CHR 0x0D"

definition nonspace :: "char \<Rightarrow> bool" where
  "nonspace c \<longleftrightarrow> \<not> isspace c"

definition newline :: char where
  "newline = CHR 0x0A"

subsection \<open>Key validation (server2.c, lines 38-45)\<close>

text \<open>The \<^verbatim>\<open>for\<close> loop of \<^verbatim>\<open>clave_valida\<close>: it runs to the terminating NUL.\<close>

fun clave_valida_loop :: "string \<Rightarrow> bool" where
  "clave_valida_loop [] = True"
| "clave_valida_loop (c # cs) =
     (if c = NUL then True
      else if c = CHR ''/'' \<or> c = CHR 0x5C \<or> c = CHR ''.'' \<or> c = CHR '' '' then False
      else clave_valida_loop cs)"

definition clave_valida :: "string option \<Rightarrow> bool" where
  "clave_valida clave =
     (case clave of
        None \<Rightarrow> False
      | Some s \<Rightarrow> (if s = [] \<or> hd s = NUL then False else clave_valida_loop s))"

subsection \<open>Parsing (server2.c, lines 63-91)\<close>

definition parse_cmd :: "string \<Rightarrow> Command" where
  "parse_cmd cmd_str =
     (if cmd_str = ''SET'' then CMD_SET
      else if cmd_str = ''GET'' then CMD_GET
      else if cmd_str = ''DEL'' then CMD_DEL
      else CMD_INVALID)"

text \<open>
  The directives of \<^verbatim>\<open>sscanf\<close>. Each takes the input left and gives the text it stored
  with the input after it, or \<open>None\<close> when it fails.
  \<^item> a space in the format skips any run of white space and never fails;
  \<^item> \<^verbatim>\<open>%Ns\<close> skips white space, then stores at most \<open>N\<close> bytes, stopping before white
    space; it fails at the end of the input;
  \<^item> \<^verbatim>\<open>%N[^\n]\<close> skips nothing and stores at most \<open>N\<close> bytes, stopping before a newline;
    it fails at the end of the input and when the first byte is a newline.
\<close>

definition skip_ws :: "string \<Rightarrow> string" where
  "skip_ws s = dropWhile isspace s"

definition scan_s :: "nat \<Rightarrow> string \<Rightarrow> (string \<times> string) option" where
  "scan_s w s =
     (let s1 = skip_ws s in
      if s1 = [] then None
      else (let tok = take w (takeWhile nonspace s1) in Some (tok, drop (length tok) s1)))"

definition scan_not_nl :: "nat \<Rightarrow> string \<Rightarrow> (string \<times> string) option" where
  "scan_not_nl w s =
     (let tok = take w (takeWhile (\<lambda>c. c \<noteq> newline) s) in
      if tok = [] then None else Some (tok, drop (length tok) s))"

text \<open>
  \<^verbatim>\<open>sscanf(buffer, "%9s %99s %1023[^\n]", cmd_str, req->key, req->value)\<close> on arrays that
  were zeroed before the call: the count returned (\<open>EOF = -1\<close> when the input ends before
  the first conversion) and the three texts, empty where nothing was stored.
\<close>

definition sscanf_request :: "string \<Rightarrow> int \<times> string \<times> string \<times> string" where
  "sscanf_request s =
     (case scan_s 9 s of
        None \<Rightarrow> (- 1, [], [], [])
      | Some (c, s1) \<Rightarrow>
          (case scan_s 99 (skip_ws s1) of
             None \<Rightarrow> (1, c, [], [])
           | Some (k, s2) \<Rightarrow>
               (case scan_not_nl 1023 (skip_ws s2) of
                  None \<Rightarrow> (2, c, k, [])
                | Some (v, s3) \<Rightarrow> (3, c, k, v))))"

text \<open>
  \<^verbatim>\<open>parse_request\<close>: both arguments are pointers, \<open>None\<close> is NULL. The request pointed to is
  returned as the second component; it is left as it was when the function returns \<open>-1\<close>.
\<close>

definition parse_request :: "string option \<Rightarrow> Request option \<Rightarrow> int \<times> Request option" where
  "parse_request buffer req =
     (case (buffer, req) of
        (Some b, Some old) \<Rightarrow>
          (case sscanf_request (cstr b) of (matched, cmd_str, k, v) \<Rightarrow>
             (let r0 = \<lparr>cmd = CMD_INVALID, key = k, val = v\<rparr> in
              if matched < 1 then (- 2, Some r0)
              else
                (let r = r0\<lparr>cmd := parse_cmd cmd_str\<rparr> in
                 if cmd r = CMD_INVALID then (- 3, Some r)
                 else if (cmd r = CMD_GET \<or> cmd r = CMD_DEL) \<and> matched < 2 then (- 4, Some r)
                 else if cmd r = CMD_SET \<and> matched < 3 then (- 5, Some r)
                 else (0, Some r))))
      | _ \<Rightarrow> (- 1, req))"

subsection \<open>The file system: one file per key\<close>

text \<open>
  The handlers reach the file system through \<^verbatim>\<open>fopen\<close>, \<^verbatim>\<open>fputs\<close>, \<^verbatim>\<open>fread\<close>, \<^verbatim>\<open>fclose\<close> and
  \<^verbatim>\<open>remove\<close>. The model keeps the files of the working directory by name, says for which
  names \<^verbatim>\<open>fopen(name, "w")\<close> succeeds and for which names \<^verbatim>\<open>remove\<close> succeeds, and records
  every call made. \<^verbatim>\<open>fopen(name, "r")\<close> fails exactly on the names without a file. \<^verbatim>\<open>remove\<close>
  fails when there is no file of that name and when the entry may not be removed; a
  failed \<^verbatim>\<open>remove\<close> leaves the entry as it was. \<^verbatim>\<open>fputs\<close> and \<^verbatim>\<open>fclose\<close> are not checked by
  the code and are taken to succeed.
\<close>

datatype storage_op =
    Fopen_w string
  | Fputs string string
  | Fopen_r string
  | Fread string
  | Fclose string
  | Remove string

record storage =
  files :: "string \<Rightarrow> string option"
  creatable :: "string \<Rightarrow> bool"
  removable :: "string \<Rightarrow> bool"
  calls :: "storage_op list"

definition record_call :: "storage_op \<Rightarrow> storage \<Rightarrow> storage" where
  "record_call c st = st\<lparr>calls := calls st @ [c]\<rparr>"

text \<open>\<^verbatim>\<open>fopen(name, "w")\<close>: creates the file or empties it; \<open>False\<close> is the NULL result.\<close>

definition fopen_w :: "string \<Rightarrow> storage \<Rightarrow> bool \<times> storage" where
  "fopen_w name st =
     (if creatable st name
      then (True, record_call (Fopen_w name) (st\<lparr>files := (files st)(name \<mapsto> [])\<rparr>))
      else (False, record_call (Fopen_w name) st))"

text \<open>\<^verbatim>\<open>fputs(text, fp)\<close> on the stream opened on \<open>name\<close>: appends the text.\<close>

definition fputs :: "string \<Rightarrow> string \<Rightarrow> storage \<Rightarrow> storage" where
  "fputs text name st =
     record_call (Fputs name text)
       (st\<lparr>files := (files st)(name \<mapsto> (case files st name of None \<Rightarrow> [] | Some old \<Rightarrow> old) @ text)\<rparr>)"

definition fclose :: "string \<Rightarrow> storage \<Rightarrow> storage" where
  "fclose name st = record_call (Fclose name) st"

text \<open>\<^verbatim>\<open>fopen(name, "r")\<close>: the content of the file, \<open>None\<close> is the NULL result.\<close>

definition fopen_r :: "string \<Rightarrow> storage \<Rightarrow> string option \<times> storage" where
  "fopen_r name st = (files st name, record_call (Fopen_r name) st)"

text \<open>\<^verbatim>\<open>fread(dst, 1, n, fp)\<close> on a stream just opened: the first \<open>n\<close> bytes at most.\<close>

definition fread :: "nat \<Rightarrow> string \<Rightarrow> string \<Rightarrow> storage \<Rightarrow> string \<times> storage" where
  "fread n name content st = (take n content, record_call (Fread name) st)"

text \<open>
  \<^verbatim>\<open>remove(name)\<close>, its result dropped as both programs do: the entry goes when there is
  one and it may be removed; otherwise nothing changes.
\<close>

definition remove_file :: "string \<Rightarrow> storage \<Rightarrow> storage" where
  "remove_file name st =
     (if files st name \<noteq> None \<and> removable st name
      then record_call (Remove name) (st\<lparr>files := (files st)(name := None)\<rparr>)
      else record_call (Remove name) st)"

subsection \<open>Handlers (server2.c, lines 94-135)\<close>

text \<open>
  \<^verbatim>\<open>snprintf(response, cap, ...)\<close> with the text already formatted: at most \<open>cap - 1\<close> bytes
  are stored, and nothing is when \<open>cap\<close> is 0.
\<close>

definition snprintf :: "string \<Rightarrow> nat \<Rightarrow> string \<Rightarrow> string" where
  "snprintf response cap text = (if cap = 0 then response else take (cap - 1) text)"

definition handle_set :: "Request \<Rightarrow> string \<Rightarrow> nat \<Rightarrow> storage \<Rightarrow> string \<times> storage" where
  "handle_set req response cap st =
     (if \<not> clave_valida (Some (key req))
      then (snprintf response cap ''ERROR: Clave invalida\<newline>'', st)
      else
        (case fopen_w (cstr (key req)) st of
           (False, st1) \<Rightarrow> (snprintf response cap ''ERROR: No se pudo crear\<newline>'', st1)
         | (True, st1) \<Rightarrow>
             (snprintf response cap ''OK\<newline>'',
              fclose (cstr (key req)) (fputs (cstr (val req)) (cstr (key req)) st1))))"

definition handle_get :: "Request \<Rightarrow> string \<Rightarrow> nat \<Rightarrow> storage \<Rightarrow> string \<times> storage" where
  "handle_get req response cap st =
     (if \<not> clave_valida (Some (key req))
      then (snprintf response cap ''ERROR: Clave invalida\<newline>'', st)
      else
        (case fopen_r (cstr (key req)) st of
           (None, st1) \<Rightarrow> (snprintf response cap ''NOTFOUND\<newline>'', st1)
         | (Some content, st1) \<Rightarrow>
             (case fread (BUFFER_SIZE - 1) (cstr (key req)) content st1 of
                (contenido, st2) \<Rightarrow>
                  (snprintf response cap
                     (''OK\<newline>'' @ take (BUFFER_SIZE - 5) (cstr contenido) @ ''\<newline>''),
                   fclose (cstr (key req)) st2))))"

definition handle_del :: "Request \<Rightarrow> string \<Rightarrow> nat \<Rightarrow> storage \<Rightarrow> string \<times> storage" where
  "handle_del req response cap st =
     (if \<not> clave_valida (Some (key req))
      then (snprintf response cap ''ERROR: Clave invalida\<newline>'', st)
      else (snprintf response cap ''OK\<newline>'', remove_file (cstr (key req)) st))"

subsection \<open>Writing to the socket (server2.c, lines 47-60)\<close>

text \<open>
  What one call of \<^verbatim>\<open>write\<close> does is given by the environment: the number of bytes it
  took (never more than it was offered), or \<open>-1\<close> with an \<^verbatim>\<open>errno\<close>. A list of such results
  is consumed call by call; when it runs out the call has not returned.
\<close>

datatype errno = EINTR | EOTHER

datatype write_result = Written nat | Write_failed errno

text \<open>
  The loop of \<^verbatim>\<open>write_all\<close>: \<open>p\<close> is the region still to write (\<open>n\<close> is its length), \<open>sent\<close>
  what the socket took so far. The result is the value returned, the bytes the socket
  took and the results not consumed; \<open>None\<close> when the loop is still running at the end of
  the list.
\<close>

fun write_loop :: "write_result list \<Rightarrow> string \<Rightarrow> string \<Rightarrow> int \<Rightarrow>
    (int \<times> string \<times> write_result list) option" where
  "write_loop ws [] sent len = Some (len, sent, ws)"
| "write_loop [] (b # p) sent len = None"
| "write_loop (Write_failed e # ws) (b # p) sent len =
     (if e = EINTR then write_loop ws (b # p) sent len else Some (- 1, sent, ws))"
| "write_loop (Written w # ws) (b # p) sent len =
     write_loop ws (drop w (b # p)) (sent @ take w (b # p)) len"

text \<open>\<^verbatim>\<open>write_all(fd, buf, len)\<close>: the region \<open>buf[0..len)\<close> is the list \<open>buf\<close>.\<close>

definition write_all :: "write_result list \<Rightarrow> string \<Rightarrow>
    (int \<times> string \<times> write_result list) option" where
  "write_all ws buf = write_loop ws buf [] (int (length buf))"

subsection \<open>One request, one client (server2.c, lines 138-176)\<close>

text \<open>
  \<^verbatim>\<open>run_request\<close>: the response buffer starts zeroed and has \<^verbatim>\<open>BUFFER_SIZE\<close> bytes; the text in
  it is then written with \<^verbatim>\<open>write_all\<close>, whose result is dropped. The first component is
  \<open>None\<close> when \<^verbatim>\<open>write_all\<close> does not return.
\<close>

definition run_request :: "write_result list \<Rightarrow> Request \<Rightarrow> storage \<Rightarrow>
    (int \<times> string \<times> write_result list) option \<times> storage" where
  "run_request ws req st =
     (case (case cmd req of
              CMD_SET \<Rightarrow> handle_set req [] BUFFER_SIZE st
            | CMD_GET \<Rightarrow> handle_get req [] BUFFER_SIZE st
            | CMD_DEL \<Rightarrow> handle_del req [] BUFFER_SIZE st
            | CMD_INVALID \<Rightarrow> (snprintf [] BUFFER_SIZE ''ERROR: Comando invalido\<newline>'', st))
      of (response, st') \<Rightarrow> (write_all ws (cstr response), st'))"

text \<open>
  \<^verbatim>\<open>read(client_fd, buffer, BUFFER_SIZE - 1)\<close>: it fails, or it gives the first bytes of what
  the peer sent (none when the peer sent nothing and closed).
\<close>

datatype read_result = Read_failed errno | Read_bytes string

record client =
  incoming :: read_result
  writes :: "write_result list"

text \<open>What a connection handler leaves behind when it returns.\<close>

record conn_out =
  sent :: string
  closed :: bool
  diag :: "string list"

text \<open>The conditional expression that selects \<^verbatim>\<open>msg\<close> in \<^verbatim>\<open>handle_client\<close>.\<close>

definition parse_error_msg :: "int \<Rightarrow> string" where
  "parse_error_msg st =
     (if st = - 2 \<or> st = - 3 then ''ERROR: Comando invalido\<newline>''
      else if st = - 4 then ''ERROR: Falta clave\<newline>''
      else if st = - 5 then ''ERROR: Falta valor\<newline>''
      else ''ERROR: Formato invalido\<newline>'')"

text \<open>
  The local \<^verbatim>\<open>Request req\<close> is not initialised; \<^verbatim>\<open>parse_request\<close> clears it before anything
  reads it, so any value stands for it.
\<close>

definition stack_req :: Request where
  "stack_req = \<lparr>cmd = CMD_INVALID, key = [], val = []\<rparr>"

definition after_write :: "(int \<times> string \<times> write_result list) option \<Rightarrow> conn_out option" where
  "after_write w = map_option (\<lambda>(r, out, ws). \<lparr>sent = out, closed = True, diag = []\<rparr>) w"

definition handle_client :: "client \<Rightarrow> storage \<Rightarrow> conn_out option \<times> storage" where
  "handle_client c st =
     (case incoming c of
        Read_failed e \<Rightarrow> (Some \<lparr>sent = [], closed = True, diag = [''read'']\<rparr>, st)
      | Read_bytes d \<Rightarrow>
          (let buffer = take (BUFFER_SIZE - 1) d; bytes = int (length buffer) in
           if bytes \<le> 0 then (Some \<lparr>sent = [], closed = True, diag = [''read'']\<rparr>, st)
           else
             (case parse_request (Some buffer) (Some stack_req) of
                (status, req) \<Rightarrow>
                  if status \<noteq> 0
                  then (after_write (write_all (writes c) (parse_error_msg status)), st)
                  else
                    (case req of
                       None \<Rightarrow> (None, st)
                     | Some r \<Rightarrow>
                         (case run_request (writes c) r st of
                            (w, st') \<Rightarrow> (after_write w, st'))))))"

subsection \<open>The server loop (server2.c, lines 34-35 and 179-228)\<close>

text \<open>
  One turn of the loop is one call of \<^verbatim>\<open>accept\<close>. The environment says what the call
  returned and whether \<^verbatim>\<open>on_sigint\<close> ran (setting \<^verbatim>\<open>g_stop\<close>) during the turn: \<open>sigint_early\<close>
  is a signal between the test at the head of the loop and the test after a failed
  \<^verbatim>\<open>accept\<close> (for an accepted client: until \<^verbatim>\<open>handle_client\<close> returns); \<open>sigint_late\<close> is a
  signal after that and before the next test at the head of the loop.
\<close>

datatype accept_result = Accepted client | Accept_failed errno

record accept_event =
  result :: accept_result
  sigint_early :: bool
  sigint_late :: bool

datatype server_event = Served conn_out | Perror string

text \<open>
  The \<^verbatim>\<open>while (!g_stop)\<close> loop. The result is what the server did, the file system and the
  events not consumed; \<open>None\<close> when the loop is still running at the end of the list (or a
  handler never returned).
\<close>

fun main_loop :: "bool \<Rightarrow> accept_event list \<Rightarrow> storage \<Rightarrow> server_event list \<Rightarrow>
    (server_event list \<times> storage \<times> accept_event list) option" where
  "main_loop True evs st log = Some (log, st, evs)"
| "main_loop False [] st log = None"
| "main_loop False (ev # evs) st log =
     (case result ev of
        Accept_failed e \<Rightarrow>
          if e = EINTR \<and> sigint_early ev then Some (log, st, evs)
          else main_loop (sigint_early ev \<or> sigint_late ev) evs st (log @ [Perror ''accept''])
      | Accepted c \<Rightarrow>
          (case handle_client c st of
             (None, st') \<Rightarrow> None
           | (Some out, st') \<Rightarrow>
               main_loop (sigint_early ev \<or> sigint_late ev) evs st' (log @ [Served out])))"

definition EXIT_SUCCESS :: int where
  "EXIT_SUCCESS = 0"

definition EXIT_FAILURE :: int where
  "EXIT_FAILURE = 1"

record startup =
  socket_ok :: bool
  setsockopt_ok :: bool
  bind_ok :: bool
  listen_ok :: bool

record exit_state =
  exit_status :: int
  listener_closed :: bool
  stdout :: "string list"
  trace :: "server_event list"
  disk :: storage

text \<open>
  \<^verbatim>\<open>main\<close>: \<open>g0\<close> is whether SIGINT arrived between the call of \<^verbatim>\<open>signal\<close> and the first test
  of \<^verbatim>\<open>g_stop\<close>. \<open>None\<close> when \<^verbatim>\<open>main\<close> does not return within the events given.
\<close>

definition main :: "startup \<Rightarrow> bool \<Rightarrow> accept_event list \<Rightarrow> storage \<Rightarrow> exit_state option" where
  "main su g0 evs st =
     (if \<not> socket_ok su then
        Some \<lparr>exit_status = EXIT_FAILURE, listener_closed = False, stdout = [],
              trace = [Perror ''socket''], disk = st\<rparr>
      else if \<not> setsockopt_ok su then
        Some \<lparr>exit_status = EXIT_FAILURE, listener_closed = True, stdout = [],
              trace = [Perror ''setsockopt''], disk = st\<rparr>
      else if \<not> bind_ok su then
        Some \<lparr>exit_status = EXIT_FAILURE, listener_closed = True, stdout = [],
              trace = [Perror ''bind''], disk = st\<rparr>
      else if \<not> listen_ok su then
        Some \<lparr>exit_status = EXIT_FAILURE, listener_closed = True, stdout = [],
              trace = [Perror ''listen''], disk = st\<rparr>
      else
        (case main_loop g0 evs st [] of
           None \<Rightarrow> None
         | Some (l, st', rest) \<Rightarrow>
             Some \<lparr>exit_status = 0, listener_closed = True,
                   stdout = [''Servidor clave-valor escuchando en el puerto 5000...\<newline>'',
                             ''Cerrando servidor ordenadamente.\<newline>''],
                   trace = l, disk = st'\<rparr>))"

subsection \<open>The first variant (servidor.c, lines 11-81)\<close>

definition servidor_clave_valida :: "string \<Rightarrow> bool" where
  "servidor_clave_valida clave = (if length (cstr clave) = 0 then False else clave_valida_loop clave)"

text \<open>
  \<^verbatim>\<open>handle_command\<close> declares \<^verbatim>\<open>cmd[10]\<close>, \<^verbatim>\<open>key[100]\<close>, \<^verbatim>\<open>value[BUFFER_SIZE]\<close> and
  \<^verbatim>\<open>contenido[BUFFER_SIZE]\<close> without initialising them; what they hold on entry is given.
\<close>

record stack =
  cmd_junk :: string
  key_junk :: string
  contenido_junk :: string

text \<open>
  \<^verbatim>\<open>sscanf(buffer, "%s %s %[^\n]", cmd, key, value)\<close>: no field width, so a token is stored
  whole; \<open>None\<close> marks an array the call did not touch.
\<close>

definition servidor_sscanf ::
    "string \<Rightarrow> int \<times> string option \<times> string option \<times> string option" where
  "servidor_sscanf s =
     (case scan_s (length s) s of
        None \<Rightarrow> (- 1, None, None, None)
      | Some (c, s1) \<Rightarrow>
          (case scan_s (length s) (skip_ws s1) of
             None \<Rightarrow> (1, Some c, None, None)
           | Some (k, s2) \<Rightarrow>
               (case scan_not_nl (length s) (skip_ws s2) of
                  None \<Rightarrow> (2, Some c, Some k, None)
                | Some (v, s3) \<Rightarrow> (3, Some c, Some k, Some v))))"

text \<open>How a call of \<^verbatim>\<open>handle_command\<close> ends.\<close>

datatype ending =
    Returned conn_out storage
  | Exited int conn_out storage
  | Array_overrun

text \<open>One call of \<^verbatim>\<open>write\<close>, its result dropped: the bytes the socket took.\<close>

definition write_once :: "write_result list \<Rightarrow> string \<Rightarrow> string option" where
  "write_once ws buf =
     (case ws of
        [] \<Rightarrow> None
      | Written w # rest \<Rightarrow> Some (take w buf)
      | Write_failed e # rest \<Rightarrow> Some [])"

definition reply :: "client \<Rightarrow> string \<Rightarrow> storage \<Rightarrow> ending option" where
  "reply c response st =
     map_option (\<lambda>out. Returned \<lparr>sent = out, closed = True, diag = []\<rparr> st)
       (write_once (writes c) (cstr response))"

definition handle_command :: "client \<Rightarrow> stack \<Rightarrow> storage \<Rightarrow> ending option" where
  "handle_command c junk st =
     (let read_error = Some (Exited EXIT_FAILURE
            \<lparr>sent = [], closed = True, diag = [''Error al leer del cliente'']\<rparr> st) in
      case incoming c of
        Read_failed e \<Rightarrow> read_error
      | Read_bytes d \<Rightarrow>
          (let buffer = take (BUFFER_SIZE - 1) d; bytes_read = int (length buffer) in
           if bytes_read \<le> 0 then read_error
           else
             (case servidor_sscanf (cstr buffer) of
                (matched, c_tok, k_tok, v_tok) \<Rightarrow>
                  if 10 \<le> length (case c_tok of None \<Rightarrow> [] | Some t \<Rightarrow> t)
                     \<or> 100 \<le> length (case k_tok of None \<Rightarrow> [] | Some t \<Rightarrow> t)
                  then Some Array_overrun
                  else
                    (let cmd = cstr (case c_tok of None \<Rightarrow> cmd_junk junk | Some t \<Rightarrow> t);
                         key = cstr (case k_tok of None \<Rightarrow> key_junk junk | Some t \<Rightarrow> t);
                         value = (case v_tok of None \<Rightarrow> [] | Some t \<Rightarrow> t)
                     in
                     if \<not> servidor_clave_valida key
                     then reply c (snprintf [] BUFFER_SIZE
                            (''ERROR: Clave inv'' @ [CHR 0xC3, CHR 0xA1] @ ''lida\<newline>'')) st
                     else if cmd = ''SET'' \<and> matched = 3 then
                       (case fopen_w key st of
                          (False, st1) \<Rightarrow>
                            Some (Exited EXIT_FAILURE
                              \<lparr>sent = [], closed = False,
                                 diag = [''No se pudo crear el archivo'']\<rparr> st1)
                        | (True, st1) \<Rightarrow>
                            reply c (snprintf [] BUFFER_SIZE ''OK\<newline>'')
                              (fclose key (fputs value key st1)))
                     else if cmd = ''GET'' \<and> 2 \<le> matched then
                       (case fopen_r key st of
                          (None, st1) \<Rightarrow> reply c (snprintf [] BUFFER_SIZE ''NOTFOUND\<newline>'') st1
                        | (Some content, st1) \<Rightarrow>
                            (case fread (BUFFER_SIZE - 1) key content st1 of
                               (got, st2) \<Rightarrow>
                                 (let contenido =
                                        take (BUFFER_SIZE - 1)
                                          (got @ drop (length got) (contenido_junk junk))
                                  in reply c
                                       (snprintf [] BUFFER_SIZE
                                          (''OK\<newline>'' @ cstr contenido @ ''\<newline>''))
                                       (fclose key st2))))
                     else if cmd = ''DEL'' \<and> 2 \<le> matched then
                       reply c (snprintf [] BUFFER_SIZE ''OK\<newline>'') (remove_file key st)
                     else
                       reply c (snprintf [] BUFFER_SIZE
                         (''ERROR: Comando inv'' @ [CHR 0xC3, CHR 0xA1] @ ''lido\<newline>'')) st))))"

subsection \<open>The request grammar in the specification's words\<close>

text \<open>The white-space delimited tokens of a text, in order.\<close>

function tokens :: "string \<Rightarrow> string list" where
  "tokens s =
     (case dropWhile isspace s of
        [] \<Rightarrow> []
      | c # cs \<Rightarrow> (c # takeWhile nonspace cs) # tokens (dropWhile nonspace cs))"
  by pat_completeness auto
termination
proof (relation "measure length")
  show "wf (measure length)" by simp
next
  fix s :: string and c cs
  assume a: "dropWhile isspace s = c # cs"
  have "length (dropWhile nonspace cs) \<le> length cs" by (rule length_dropWhile_le)
  moreover have "length (c # cs) \<le> length s" using a length_dropWhile_le [of isspace s] by simp
  ultimately show "(dropWhile nonspace cs, s) \<in> measure length" by simp
qed

declare tokens.simps [simp del]

text \<open>A text at which a token ends: nothing is left, or white space comes next.\<close>

definition word_end :: "string \<Rightarrow> bool" where
  "word_end rest \<longleftrightarrow> rest = [] \<or> isspace (hd rest)"

text \<open>
  The outcomes of the parser, in the order the specification evaluates them, from the
  tokens of the input and whether a value was captured; \<open>None\<close> is success. \<open>status_of\<close>
  gives the status code that \<^verbatim>\<open>parse_request\<close> returns for each.
\<close>

datatype ParseError = Empty | UnknownCommand | MissingKey | MissingValue

definition spec_parse :: "string list \<Rightarrow> bool \<Rightarrow> ParseError option" where
  "spec_parse ts value_captured =
     (if ts = [] then Some Empty
      else if hd ts \<noteq> ''SET'' \<and> hd ts \<noteq> ''GET'' \<and> hd ts \<noteq> ''DEL'' then Some UnknownCommand
      else if (hd ts = ''GET'' \<or> hd ts = ''DEL'') \<and> length ts < 2 then Some MissingKey
      else if hd ts = ''SET'' \<and> \<not> value_captured then Some MissingValue
      else None)"

definition status_of :: "ParseError option \<Rightarrow> int" where
  "status_of e =
     (case e of
        None \<Rightarrow> 0
      | Some Empty \<Rightarrow> - 2
      | Some UnknownCommand \<Rightarrow> - 3
      | Some MissingKey \<Rightarrow> - 4
      | Some MissingValue \<Rightarrow> - 5)"

subsection \<open>Vocabulary of the properties\<close>

text \<open>A call of \<^verbatim>\<open>write\<close> that takes at least one byte.\<close>

fun progress :: "write_result \<Rightarrow> bool" where
  "progress (Written w) = (0 < w)"
| "progress (Write_failed e) = False"

text \<open>
  \<^verbatim>\<open>g_stop\<close> is set over a run of turns when it was set before them or \<^verbatim>\<open>on_sigint\<close> ran during
  one of them.
\<close>

definition flag_set :: "bool \<Rightarrow> accept_event list \<Rightarrow> bool" where
  "flag_set g evs \<longleftrightarrow> g \<or> (\<exists>ev\<in>set evs. sigint_early ev \<or> sigint_late ev)"

text \<open>Turns that accepted a client; entries of the trace that are a served client.\<close>

definition accepted :: "accept_event \<Rightarrow> bool" where
  "accepted ev = (case result ev of Accepted c \<Rightarrow> True | Accept_failed e \<Rightarrow> False)"

fun served :: "server_event \<Rightarrow> bool" where
  "served (Served out) = True"
| "served (Perror text) = False"

text \<open>Every client accepted in these turns is one whose handler returns.\<close>

definition handlers_return :: "accept_event list \<Rightarrow> bool" where
  "handlers_return evs \<longleftrightarrow>
     (\<forall>ev\<in>set evs. \<forall>c. result ev = Accepted c \<longrightarrow> (\<forall>st. fst (handle_client c st) \<noteq> None))"

subsection \<open>Values used in examples\<close>

text \<open>
  A working directory without files in which every name can be created, and one that
  refuses every creation; empty arrays on the stack; a start-up without failure; a
  client that closes without sending.
\<close>

definition empty_disk :: storage where
  "empty_disk = \<lparr>files = (\<lambda>name. None), creatable = (\<lambda>name. True),
     removable = (\<lambda>name. True), calls = []\<rparr>"

definition no_junk :: stack where
  "no_junk = \<lparr>cmd_junk = [], key_junk = [], contenido_junk = []\<rparr>"

definition full_disk :: storage where
  "full_disk = \<lparr>files = (\<lambda>name. None), creatable = (\<lambda>name. False),
     removable = (\<lambda>name. True), calls = []\<rparr>"

text \<open>
  A directory that holds the file \<^verbatim>\<open>greeting\<close> with the content \<^verbatim>\<open>hello world\<close>: one in which
  it may be removed, and one in which no entry may be removed.
\<close>

definition greeting_disk :: storage where
  "greeting_disk = \<lparr>files = (\<lambda>name. if name = ''greeting'' then Some ''hello world'' else None),
     creatable = (\<lambda>name. True), removable = (\<lambda>name. True), calls = []\<rparr>"

definition locked_disk :: storage where
  "locked_disk = \<lparr>files = (\<lambda>name. if name = ''greeting'' then Some ''hello world'' else None),
     creatable = (\<lambda>name. True), removable = (\<lambda>name. False), calls = []\<rparr>"

definition good_start :: startup where
  "good_start = \<lparr>socket_ok = True, setsockopt_ok = True, bind_ok = True, listen_ok = True\<rparr>"

definition hangup :: client where
  "hangup = \<lparr>incoming = Read_bytes [], writes = []\<rparr>"

section \<open>Properties\<close>

subsection \<open>Scanning and tokens\<close>

lemma skip_ws_head: "skip_ws s = c # cs \<Longrightarrow> nonspace c"
  unfolding skip_ws_def nonspace_def using hd_dropWhile [of isspace s] by auto

lemma skip_ws_idem: "skip_ws (skip_ws s) = skip_ws s"
  unfolding skip_ws_def by (cases "dropWhile isspace s") (use hd_dropWhile [of isspace s] in auto)

lemma skip_ws_word: "t \<noteq> [] \<Longrightarrow> \<forall>c\<in>set t. nonspace c \<Longrightarrow> skip_ws (t @ rest) = t @ rest"
  unfolding skip_ws_def nonspace_def by (cases t) auto

lemma skip_ws_split:
  assumes "skip_ws s \<noteq> []"
  obtains t rest where "skip_ws s = t @ rest" and "t \<noteq> []" and "\<forall>c\<in>set t. nonspace c"
    and "word_end rest"
proof
  let ?s0 = "skip_ws s"
  show "?s0 = takeWhile nonspace ?s0 @ dropWhile nonspace ?s0" by simp
  from assms obtain c cs where cs: "?s0 = c # cs" by (cases ?s0) auto
  then have "nonspace c" by (rule skip_ws_head)
  with cs show "takeWhile nonspace ?s0 \<noteq> []" by simp
  show "\<forall>c\<in>set (takeWhile nonspace ?s0). nonspace c" by (auto dest: set_takeWhileD)
  show "word_end (dropWhile nonspace ?s0)"
    unfolding word_end_def using hd_dropWhile [of nonspace ?s0] by (auto simp: nonspace_def)
qed

lemma takeWhile_word:
  "\<forall>c\<in>set t. nonspace c \<Longrightarrow> word_end rest \<Longrightarrow> takeWhile nonspace (t @ rest) = t"
  by (cases rest) (auto simp: word_end_def nonspace_def takeWhile_append2)

lemma dropWhile_word:
  "\<forall>c\<in>set t. nonspace c \<Longrightarrow> word_end rest \<Longrightarrow> dropWhile nonspace (t @ rest) = rest"
  by (cases rest) (auto simp: word_end_def nonspace_def dropWhile_append2)

lemma scan_s_skip: "scan_s w (skip_ws s) = scan_s w s"
  by (simp add: scan_s_def skip_ws_idem)

lemma scan_s_None: "scan_s w s = None \<longleftrightarrow> skip_ws s = []"
  by (auto simp: scan_s_def Let_def)

lemma scan_s_word:
  assumes "t \<noteq> []" and "\<forall>c\<in>set t. nonspace c" and "word_end rest"
  shows "scan_s w (t @ rest) = Some (take w t, drop w t @ rest)"
proof -
  have "skip_ws (t @ rest) = t @ rest" using assms(1,2) by (rule skip_ws_word)
  moreover have "takeWhile nonspace (t @ rest) = t" using assms(2,3) by (rule takeWhile_word)
  moreover have "drop (length (take w t)) (t @ rest) = drop w t @ rest"
    by (cases "w \<le> length t") (simp_all add: min_def)
  ultimately show ?thesis using assms(1) by (simp add: scan_s_def Let_def)
qed

lemma tokens_skip: "tokens (skip_ws s) = tokens s"
  by (subst (1 2) tokens.simps) (simp add: skip_ws_idem [unfolded skip_ws_def] skip_ws_def)

lemma tokens_Nil: "tokens s = [] \<longleftrightarrow> skip_ws s = []"
proof (cases "dropWhile isspace s")
  case Nil
  show ?thesis by (subst tokens.simps) (simp only: Nil skip_ws_def list.case, simp)
next
  case (Cons c cs)
  show ?thesis by (subst tokens.simps) (simp only: Cons skip_ws_def list.case, simp)
qed

lemma tokens_word:
  assumes "t \<noteq> []" and "\<forall>c\<in>set t. nonspace c" and "word_end rest"
  shows "tokens (t @ rest) = t # tokens rest"
proof -
  from assms(1) obtain c cs where t: "t = c # cs" by (cases t) auto
  have s: "dropWhile isspace (t @ rest) = c # (cs @ rest)"
    using skip_ws_word [OF assms(1,2), of rest] t by (simp add: skip_ws_def)
  have cs: "\<forall>c\<in>set cs. nonspace c" using assms(2) t by simp
  have "tokens (t @ rest) = (c # takeWhile nonspace (cs @ rest)) # tokens (dropWhile nonspace (cs @ rest))"
    by (subst tokens.simps) (simp only: s list.case)
  then show ?thesis
    by (simp only: t takeWhile_word [OF cs assms(3)] dropWhile_word [OF cs assms(3)])
qed

lemma not_nl_nonspace: "nonspace c \<Longrightarrow> c \<noteq> newline"
  by (auto simp: nonspace_def isspace_def newline_def)

lemma scan_not_nl_skip_None: "scan_not_nl 1023 (skip_ws s) = None \<longleftrightarrow> skip_ws s = []"
proof (cases "skip_ws s")
  case Nil
  then show ?thesis by (simp add: scan_not_nl_def)
next
  case (Cons c cs)
  then have "c \<noteq> newline" using skip_ws_head not_nl_nonspace by blast
  with Cons show ?thesis by (simp add: scan_not_nl_def)
qed

lemma scan_not_nl_length: "scan_not_nl w s = Some (v, rest) \<Longrightarrow> length v \<le> w \<and> v \<noteq> []"
  by (auto simp: scan_not_nl_def Let_def split: if_splits)

text \<open>What the \<^verbatim>\<open>sscanf\<close> call stores, from the tokens of its input.\<close>

lemma sscanf_no_token: "tokens s = [] \<Longrightarrow> sscanf_request s = (- 1, [], [], [])"
  by (simp add: sscanf_request_def tokens_Nil scan_s_None [THEN iffD2])

lemma tokens_Cons_split:
  assumes "tokens s = t # ts"
  obtains rest where "skip_ws s = t @ rest" and "t \<noteq> []" and "\<forall>c\<in>set t. nonspace c"
    and "word_end rest" and "tokens rest = ts"
proof -
  from assms have "skip_ws s \<noteq> []" using tokens_Nil [of s] by auto
  then obtain t' rest where *: "skip_ws s = t' @ rest" "t' \<noteq> []" "\<forall>c\<in>set t'. nonspace c"
      "word_end rest" by (rule skip_ws_split)
  have "tokens s = t' # tokens rest"
    using tokens_word [OF *(2,3,4)] tokens_skip [of s] *(1) by simp
  with assms have "t' = t" "tokens rest = ts" by simp_all
  with * that show ?thesis by blast
qed

lemma sscanf_one_token:
  assumes "tokens s = [t]" and "length t \<le> 9"
  shows "sscanf_request s = (1, t, [], [])"
proof -
  from assms(1) obtain rest where r: "skip_ws s = t @ rest" "t \<noteq> []" "\<forall>c\<in>set t. nonspace c"
      "word_end rest" "tokens rest = []" by (rule tokens_Cons_split)
  have 1: "scan_s 9 s = Some (t, rest)"
    using scan_s_word [OF r(2,3,4), of 9] scan_s_skip [of 9 s] r(1) assms(2) by simp
  have 2: "scan_s 99 (skip_ws rest) = None"
    using r(5) unfolding scan_s_skip scan_s_None tokens_Nil .
  show ?thesis by (simp add: sscanf_request_def 1 2)
qed

lemma sscanf_long_command:
  assumes "tokens s = t # ts" and "9 < length t"
  shows "\<exists>m v. sscanf_request s = (m, take 9 t, take 99 (drop 9 t), v) \<and> 2 \<le> m \<and> length v \<le> 1023"
proof -
  from assms(1) obtain rest where r: "skip_ws s = t @ rest" "t \<noteq> []" "\<forall>c\<in>set t. nonspace c"
      "word_end rest" "tokens rest = ts" by (rule tokens_Cons_split)
  have 1: "scan_s 9 s = Some (take 9 t, drop 9 t @ rest)"
    using scan_s_word [OF r(2,3,4), of 9] scan_s_skip [of 9 s] r(1) by simp
  have d: "drop 9 t \<noteq> []" "\<forall>c\<in>set (drop 9 t). nonspace c"
    using assms(2) r(3) by (auto dest: in_set_dropD)
  have 2: "scan_s 99 (skip_ws (drop 9 t @ rest)) = Some (take 99 (drop 9 t), drop 99 (drop 9 t) @ rest)"
    using scan_s_word [OF d r(4), of 99] by (simp add: scan_s_skip)
  show ?thesis
    by (cases "scan_not_nl 1023 (skip_ws (drop 99 (drop 9 t) @ rest))")
      (auto simp: sscanf_request_def 1 2 dest: scan_not_nl_length)
qed

lemma sscanf_two_tokens:
  assumes "tokens s = t # t2 # ts" and "length t \<le> 9"
  shows "\<exists>m v. sscanf_request s = (m, t, take 99 t2, v) \<and> length v \<le> 1023
           \<and> (if v = [] then m = 2 else m = 3)
           \<and> (v = [] \<longleftrightarrow> ts = [] \<and> length t2 \<le> 99)
           \<and> (99 < length t2 \<longrightarrow> (\<exists>tl. v = take 1023 (drop 99 t2 @ tl)))"
proof -
  from assms(1) obtain rest where r: "skip_ws s = t @ rest" "t \<noteq> []" "\<forall>c\<in>set t. nonspace c"
      "word_end rest" "tokens rest = t2 # ts" by (rule tokens_Cons_split)
  from r(5) obtain rest2 where r2: "skip_ws rest = t2 @ rest2" "t2 \<noteq> []"
      "\<forall>c\<in>set t2. nonspace c" "word_end rest2" "tokens rest2 = ts" by (rule tokens_Cons_split)
  have 1: "scan_s 9 s = Some (t, rest)"
    using scan_s_word [OF r(2,3,4), of 9] scan_s_skip [of 9 s] r(1) assms(2) by simp
  have 2: "scan_s 99 (skip_ws rest) = Some (take 99 t2, drop 99 t2 @ rest2)"
    using scan_s_word [OF r2(2,3,4), of 99] r2(1) by simp
  let ?x = "skip_ws (drop 99 t2 @ rest2)"
  show ?thesis
  proof (cases "length t2 \<le> 99")
    case True
    then have x: "?x = skip_ws rest2" by simp
    show ?thesis
    proof (cases "scan_not_nl 1023 ?x")
      case None
      then have "skip_ws rest2 = []" unfolding x scan_not_nl_skip_None .
      then have "ts = []" using r2(5) tokens_Nil [of rest2] by simp
      with None True show ?thesis by (simp add: sscanf_request_def 1 2)
    next
      case (Some a)
      then obtain v s3 where a: "a = (v, s3)" by (cases a)
      from Some have "skip_ws rest2 \<noteq> []" unfolding x using scan_not_nl_skip_None [of rest2] by auto
      then have "ts \<noteq> []" using r2(5) tokens_Nil [of rest2] by simp
      moreover have "length v \<le> 1023 \<and> v \<noteq> []" using Some a by (auto dest: scan_not_nl_length)
      ultimately show ?thesis using Some a True by (simp add: sscanf_request_def 1 2)
    qed
  next
    case False
    then have d: "drop 99 t2 \<noteq> []" "\<forall>c\<in>set (drop 99 t2). nonspace c"
      using r2(3) by (auto dest: in_set_dropD)
    have x: "?x = drop 99 t2 @ rest2" using d by (rule skip_ws_word)
    have "takeWhile (\<lambda>c. c \<noteq> newline) (drop 99 t2 @ rest2)
            = drop 99 t2 @ takeWhile (\<lambda>c. c \<noteq> newline) rest2"
      using d(2) by (simp add: takeWhile_append2 not_nl_nonspace)
    then have 3: "scan_not_nl 1023 ?x =
        Some (take 1023 (drop 99 t2 @ takeWhile (\<lambda>c. c \<noteq> newline) rest2),
              drop (length (take 1023 (drop 99 t2 @ takeWhile (\<lambda>c. c \<noteq> newline) rest2)))
                (drop 99 t2 @ rest2))"
      using d(1) by (simp add: x scan_not_nl_def Let_def)
    have "take 1023 (drop 99 t2 @ takeWhile (\<lambda>c. c \<noteq> newline) rest2) \<noteq> []"
      using d(1) by simp
    then show ?thesis using False by (auto simp: sscanf_request_def 1 2 3 simp del: take_append)
  qed
qed

lemma parse_request_unfold:
  assumes "sscanf_request (cstr b) = (m, c, k, v)"
  shows "parse_request (Some b) (Some old) =
     (if m < 1 then (- 2, Some \<lparr>cmd = CMD_INVALID, key = k, val = v\<rparr>)
      else if parse_cmd c = CMD_INVALID then (- 3, Some \<lparr>cmd = CMD_INVALID, key = k, val = v\<rparr>)
      else if (parse_cmd c = CMD_GET \<or> parse_cmd c = CMD_DEL) \<and> m < 2
        then (- 4, Some \<lparr>cmd = parse_cmd c, key = k, val = v\<rparr>)
      else if parse_cmd c = CMD_SET \<and> m < 3 then (- 5, Some \<lparr>cmd = parse_cmd c, key = k, val = v\<rparr>)
      else (0, Some \<lparr>cmd = parse_cmd c, key = k, val = v\<rparr>))"
  by (simp add: parse_request_def assms Let_def)

lemma parse_cmd_long: "3 < length c \<Longrightarrow> parse_cmd c = CMD_INVALID"
  by (auto simp: parse_cmd_def)

lemma parse_cmd_cases:
  "(parse_cmd c = CMD_SET \<longleftrightarrow> c = ''SET'') \<and> (parse_cmd c = CMD_GET \<longleftrightarrow> c = ''GET'')
   \<and> (parse_cmd c = CMD_DEL \<longleftrightarrow> c = ''DEL'')
   \<and> (parse_cmd c = CMD_INVALID \<longleftrightarrow> c \<noteq> ''SET'' \<and> c \<noteq> ''GET'' \<and> c \<noteq> ''DEL'')"
  by (simp add: parse_cmd_def)

subsection \<open>Outcomes of the parser\<close>

text \<open>
  Claim C3. For every input buffer, \<^verbatim>\<open>parse_request\<close> returns exactly the status of the
  first outcome that applies, in this order: Empty (\<open>-2\<close>) when the input has no token;
  UnknownCommand (\<open>-3\<close>) when the first token is not exactly \<^verbatim>\<open>SET\<close>, \<^verbatim>\<open>GET\<close> or \<^verbatim>\<open>DEL\<close>;
  MissingKey (\<open>-4\<close>) when the command is \<^verbatim>\<open>GET\<close> or \<^verbatim>\<open>DEL\<close> and there is no second token;
  MissingValue (\<open>-5\<close>) when the command is \<^verbatim>\<open>SET\<close> and nothing was stored in the value
  field; otherwise success (\<open>0\<close>) with a populated request: the command of the first
  token, a non-empty key taken from the second token. For \<^verbatim>\<open>SET\<close>, nothing is stored in
  the value field exactly when there is no second token, or there are two tokens and
  the second has at most 99 bytes.
\<close>

theorem parse_request_outcome:
  "\<exists>r. parse_request (Some b) (Some old)
          = (status_of (spec_parse (tokens (cstr b)) (val r \<noteq> [])), Some r)
       \<and> (spec_parse (tokens (cstr b)) (val r \<noteq> []) = None \<longrightarrow>
            cmd r = parse_cmd (hd (tokens (cstr b))) \<and> cmd r \<noteq> CMD_INVALID
            \<and> 2 \<le> length (tokens (cstr b)) \<and> key r = take 99 (tokens (cstr b) ! 1) \<and> key r \<noteq> [])
       \<and> (tokens (cstr b) \<noteq> [] \<and> hd (tokens (cstr b)) = ''SET'' \<longrightarrow>
            (val r = [] \<longleftrightarrow>
               length (tokens (cstr b)) < 2
               \<or> (length (tokens (cstr b)) = 2 \<and> length (tokens (cstr b) ! 1) \<le> 99)))"
proof -
  let ?s = "cstr b"
  consider (none) "tokens ?s = []"
    | (long) t ts where "tokens ?s = t # ts" "9 < length t"
    | (one) t where "tokens ?s = [t]" "length t \<le> 9"
    | (two) t t2 ts where "tokens ?s = t # t2 # ts" "length t \<le> 9"
    by (cases "tokens ?s" rule: list.exhaust; cases "tl (tokens ?s)") force+
  then show ?thesis
  proof cases
    case none
    then show ?thesis
      using parse_request_unfold [OF sscanf_no_token [OF none], of old]
      by (simp add: spec_parse_def status_of_def)
  next
    case long
    from sscanf_long_command [OF long] obtain m v
      where sc: "sscanf_request ?s = (m, take 9 t, take 99 (drop 9 t), v)" and m: "2 \<le> m"
      by blast
    have inv: "parse_cmd (take 9 t) = CMD_INVALID" using long(2) by (simp add: parse_cmd_long)
    have t: "t \<noteq> ''SET''" "t \<noteq> ''GET''" "t \<noteq> ''DEL''" using long(2) by auto
    show ?thesis
      using parse_request_unfold [OF sc, of old] m inv t long(1)
      by (simp add: spec_parse_def status_of_def)
  next
    case one
    have sc: "sscanf_request ?s = (1, t, [], [])" using one by (rule sscanf_one_token)
    show ?thesis
      using parse_request_unfold [OF sc, of old] one(1) parse_cmd_cases [of t]
      by (cases "parse_cmd t") (simp_all add: spec_parse_def status_of_def)
  next
    case two
    from sscanf_two_tokens [OF two] obtain m v
      where sc: "sscanf_request ?s = (m, t, take 99 t2, v)"
        and m: "if v = [] then m = 2 else m = 3"
        and v: "v = [] \<longleftrightarrow> ts = [] \<and> length t2 \<le> 99"
      by blast
    have t2: "t2 \<noteq> []"
    proof -
      from two(1) obtain rest where "tokens rest = t2 # ts" by (rule tokens_Cons_split)
      then obtain rest2 where "t2 \<noteq> []" by (rule tokens_Cons_split)
      then show ?thesis .
    qed
    show ?thesis
      using parse_request_unfold [OF sc, of old] two(1) parse_cmd_cases [of t] m v t2
      by (cases "parse_cmd t"; cases "v = []") (simp_all add: spec_parse_def status_of_def)
  qed
qed

theorem parse_request_outcome_witness:
  "\<exists>r. parse_request (Some ''SET k v'') (Some stack_req) = (0, Some r)
       \<and> cmd r = CMD_SET \<and> key r = ''k'' \<and> val r \<noteq> []"
proof -
  have ts: "tokens (cstr ''SET k v'') = [''SET'', ''k'', ''v'']" by code_simp
  show ?thesis
    using parse_request_outcome [of "''SET k v''" stack_req] unfolding ts
    by (auto simp: spec_parse_def status_of_def parse_cmd_def)
qed

subsection \<open>What the scanned fields hold\<close>

lemma cstr_no_NUL: "NUL \<notin> set (cstr b)"
  by (auto simp: cstr_def dest: set_takeWhileD)

lemma cstr_id: "NUL \<notin> set s \<Longrightarrow> cstr s = s"
  by (auto simp: cstr_def takeWhile_eq_all_conv)

lemma sscanf_bounds:
  "sscanf_request s = (m, c, k, v) \<Longrightarrow> length c \<le> 9 \<and> length k \<le> 99 \<and> length v \<le> 1023"
  by (auto simp: sscanf_request_def scan_s_def scan_not_nl_def Let_def
      split: option.splits if_splits)

lemma scan_s_token:
  assumes "scan_s w s = Some (tok, rest)"
  shows "0 < w \<Longrightarrow> tok \<noteq> []" and "\<forall>c\<in>set tok. nonspace c" and "set tok \<subseteq> set s"
    and "set rest \<subseteq> set s"
proof -
  from assms have ne: "skip_ws s \<noteq> []" and tok: "tok = take w (takeWhile nonspace (skip_ws s))"
    and rest: "rest = drop (length tok) (skip_ws s)"
    by (auto simp: scan_s_def Let_def split: if_splits)
  from ne obtain c cs where cs: "skip_ws s = c # cs" by (cases "skip_ws s") auto
  then have "nonspace c" by (rule skip_ws_head)
  with cs tok show "0 < w \<Longrightarrow> tok \<noteq> []" by (cases w) auto
  show "\<forall>c\<in>set tok. nonspace c" using tok by (auto dest: in_set_takeD set_takeWhileD)
  show "set tok \<subseteq> set s" using tok unfolding skip_ws_def
    by (auto dest!: in_set_takeD set_takeWhileD set_dropWhileD)
  show "set rest \<subseteq> set s" using rest unfolding skip_ws_def
    by (auto dest!: in_set_dropD set_dropWhileD)
qed

lemma sscanf_key_shape:
  assumes "sscanf_request s = (m, c, k, v)" and "2 \<le> m"
  shows "k \<noteq> [] \<and> (\<forall>x\<in>set k. nonspace x) \<and> set k \<subseteq> set s"
proof -
  from assms obtain s1 s2 where 1: "scan_s 9 s = Some (c, s1)"
    and 2: "scan_s 99 (skip_ws s1) = Some (k, s2)"
    by (auto simp: sscanf_request_def split: option.splits)
  have "set k \<subseteq> set (skip_ws s1)" using 2 by (rule scan_s_token(3))
  also have "\<dots> \<subseteq> set s1" unfolding skip_ws_def by (auto dest: set_dropWhileD)
  also have "\<dots> \<subseteq> set s" using 1 by (rule scan_s_token(4))
  finally have "set k \<subseteq> set s" .
  moreover have "k \<noteq> []" using scan_s_token(1) [OF 2] by simp
  moreover have "\<forall>x\<in>set k. nonspace x" using 2 by (rule scan_s_token(2))
  ultimately show ?thesis by simp
qed

lemma clave_valida_loop_iff:
  "clave_valida_loop s \<longleftrightarrow>
     (\<forall>c\<in>set (cstr s). c \<noteq> CHR ''/'' \<and> c \<noteq> CHR 0x5C \<and> c \<noteq> CHR ''.'' \<and> c \<noteq> CHR '' '')"
  by (induction s) (auto simp: cstr_def)

lemma clave_valida_iff:
  "clave_valida (Some s) \<longleftrightarrow>
     cstr s \<noteq> [] \<and> (\<forall>c\<in>set (cstr s). c \<noteq> CHR ''/'' \<and> c \<noteq> CHR 0x5C \<and> c \<noteq> CHR ''.'' \<and> c \<noteq> CHR '' '')"
  by (cases s) (auto simp: clave_valida_def clave_valida_loop_iff cstr_def)

lemma parse_request_ok:
  assumes "parse_request (Some b) (Some old) = (0, Some r)"
  obtains m c where "sscanf_request (cstr b) = (m, c, key r, val r)" and "2 \<le> m"
    and "cmd r = parse_cmd c"
proof -
  obtain m c k v where sc: "sscanf_request (cstr b) = (m, c, k, v)"
    by (cases "sscanf_request (cstr b)") auto
  from assms parse_request_unfold [OF sc, of old]
  have "k = key r \<and> v = val r \<and> 2 \<le> m \<and> cmd r = parse_cmd c"
    by (cases "parse_cmd c") (auto split: if_splits)
  with sc that show ?thesis by blast
qed

subsection \<open>The key of a parsed request\<close>

text \<open>
  Claim C10. In every request that \<^verbatim>\<open>parse_request\<close> returns with status 0, the key is at
  most 99 bytes long and holds no NUL (so it sits NUL-terminated in \<^verbatim>\<open>key[100]\<close>), is not
  empty and holds no white-space character. Hence the test for a space in
  \<^verbatim>\<open>clave_valida\<close> never decides: on such a key the validator accepts exactly when the key
  has none of \<^verbatim>\<open>/\<close>, \<^verbatim>\<open>\\<close> and \<^verbatim>\<open>.\<close>.
\<close>

theorem parsed_key_shape:
  assumes "parse_request (Some b) (Some old) = (0, Some r)"
  shows "length (key r) \<le> 99 \<and> key r \<noteq> [] \<and> NUL \<notin> set (key r)
         \<and> (\<forall>c\<in>set (key r). \<not> isspace c)
         \<and> (clave_valida (Some (key r)) \<longleftrightarrow>
              (\<forall>c\<in>set (key r). c \<noteq> CHR ''/'' \<and> c \<noteq> CHR 0x5C \<and> c \<noteq> CHR ''.''))"
proof -
  from assms obtain m c where sc: "sscanf_request (cstr b) = (m, c, key r, val r)"
    and m: "2 \<le> m" by (rule parse_request_ok)
  have len: "length (key r) \<le> 99" using sscanf_bounds [OF sc] by simp
  have shape: "key r \<noteq> []" "\<forall>x\<in>set (key r). nonspace x" "set (key r) \<subseteq> set (cstr b)"
    using sscanf_key_shape [OF sc m] by simp_all
  have nul: "NUL \<notin> set (key r)" using shape(3) cstr_no_NUL [of b] by auto
  have sp: "\<forall>c\<in>set (key r). \<not> isspace c" using shape(2) by (simp add: nonspace_def)
  then have "CHR '' '' \<notin> set (key r)" by (auto simp: isspace_def)
  then have "clave_valida (Some (key r)) \<longleftrightarrow>
      (\<forall>c\<in>set (key r). c \<noteq> CHR ''/'' \<and> c \<noteq> CHR 0x5C \<and> c \<noteq> CHR ''.'')"
    using shape(1) by (auto simp: clave_valida_iff cstr_id [OF nul])
  with len shape(1) nul sp show ?thesis by simp
qed

theorem parsed_key_shape_witness:
  "parse_request (Some ''GET k'') (Some stack_req) = (0, Some \<lparr>cmd = CMD_GET, key = ''k'', val = []\<rparr>)
   \<and> clave_valida (Some ''k'')"
proof -
  have p: "parse_request (Some ''GET k'') (Some stack_req)
      = (0, Some \<lparr>cmd = CMD_GET, key = ''k'', val = []\<rparr>)" by code_simp
  show ?thesis using p parsed_key_shape [OF p] by simp
qed

subsection \<open>Field ceilings\<close>

text \<open>
  Claim C7 says that the bytes of a token beyond its ceiling appear in no field. They do:
  a \<^verbatim>\<open>SET\<close> whose second token is 99 bytes followed by \<^verbatim>\<open>EXCESS\<close>, with nothing after it, is
  accepted with the first 99 bytes as the key and \<^verbatim>\<open>EXCESS\<close> as the value.
\<close>

theorem key_excess_counterexample:
  "parse_request (Some (''SET '' @ replicate 99 (CHR ''k'') @ ''EXCESS'')) (Some stack_req)
     = (0, Some \<lparr>cmd = CMD_SET, key = replicate 99 (CHR ''k''), val = ''EXCESS''\<rparr>)"
  by code_simp

text \<open>
  Claim C7, amended. The command text holds at most 9 bytes, the key at most 99 and the
  value at most \<^verbatim>\<open>BUFFER_SIZE - 1\<close>. A token longer than its ceiling is cut at the
  boundary, and the scan goes on from the boundary: the command text is the first 9 bytes
  of the first token; when that token is longer, the key is taken from its 10th byte on;
  when the first token fits and the second is longer than 99 bytes, the key is its first
  99 bytes and the value starts with the bytes after them.
\<close>

theorem field_ceilings:
  "\<exists>m c k v st r.
      sscanf_request (cstr b) = (m, c, k, v)
    \<and> parse_request (Some b) (Some old) = (st, Some r) \<and> key r = k \<and> val r = v
    \<and> length c \<le> 9 \<and> length k \<le> 99 \<and> length v \<le> BUFFER_SIZE - 1
    \<and> (\<forall>t ts. tokens (cstr b) = t # ts \<longrightarrow> c = take 9 t)
    \<and> (\<forall>t ts. tokens (cstr b) = t # ts \<and> 9 < length t \<longrightarrow> k = take 99 (drop 9 t))
    \<and> (\<forall>t t2 ts. tokens (cstr b) = t # t2 # ts \<and> length t \<le> 9 \<longrightarrow>
          k = take 99 t2 \<and> (99 < length t2 \<longrightarrow> (\<exists>tl. v = take 1023 (drop 99 t2 @ tl))))"
proof -
  obtain m c k v where sc: "sscanf_request (cstr b) = (m, c, k, v)"
    by (cases "sscanf_request (cstr b)") auto
  obtain st r where pr: "parse_request (Some b) (Some old) = (st, Some r)" "key r = k" "val r = v"
    using parse_request_unfold [OF sc, of old] by (auto split: if_splits)
  have b: "length c \<le> 9 \<and> length k \<le> 99 \<and> length v \<le> BUFFER_SIZE - 1"
    using sscanf_bounds [OF sc] by (simp add: BUFFER_SIZE_def)
  have 1: "\<forall>t ts. tokens (cstr b) = t # ts \<and> 9 < length t \<longrightarrow> c = take 9 t \<and> k = take 99 (drop 9 t)"
    using sscanf_long_command sc by fastforce
  have 2: "\<forall>t t2 ts. tokens (cstr b) = t # t2 # ts \<and> length t \<le> 9 \<longrightarrow>
          c = t \<and> k = take 99 t2 \<and> (99 < length t2 \<longrightarrow> (\<exists>tl. v = take 1023 (drop 99 t2 @ tl)))"
    using sscanf_two_tokens sc by fastforce
  have 3: "\<forall>t. tokens (cstr b) = [t] \<and> length t \<le> 9 \<longrightarrow> c = t"
    using sscanf_one_token sc by fastforce
  have 4: "\<forall>t ts. tokens (cstr b) = t # ts \<longrightarrow> c = take 9 t"
  proof (intro allI impI)
    fix t ts assume t: "tokens (cstr b) = t # ts"
    show "c = take 9 t"
    proof (cases "9 < length t")
      case True with t 1 show ?thesis by blast
    next
      case False
      then show ?thesis using t 2 3 by (cases ts) auto
    qed
  qed
  show ?thesis using sc pr b 1 2 4 by blast
qed

theorem field_ceilings_witness:
  "\<exists>st r tl. parse_request (Some (''GET '' @ replicate 99 (CHR ''k'') @ ''EXCESS'')) (Some stack_req)
       = (st, Some r)
     \<and> key r = replicate 99 (CHR ''k'') \<and> val r = ''EXCESS'' @ tl"
proof -
  let ?b = "''GET '' @ replicate 99 (CHR ''k'') @ ''EXCESS''"
  have ts: "tokens (cstr ?b) = [''GET'', replicate 99 (CHR ''k'') @ ''EXCESS'']" by code_simp
  from field_ceilings [of ?b stack_req] obtain k v st r
    where pr: "parse_request (Some ?b) (Some stack_req) = (st, Some r)" "key r = k" "val r = v"
      and sp: "\<forall>t t2 ts. tokens (cstr ?b) = t # t2 # ts \<and> length t \<le> 9 \<longrightarrow>
          k = take 99 t2 \<and> (99 < length t2 \<longrightarrow> (\<exists>tl. v = take 1023 (drop 99 t2 @ tl)))"
    by blast
  from sp ts have "k = replicate 99 (CHR ''k'') \<and> (\<exists>tl. v = ''EXCESS'' @ tl)"
    by auto
  with pr show ?thesis by blast
qed

subsection \<open>Dispatch\<close>

lemma clave_valida_invalid:
  assumes "cstr k = [] \<or> (\<exists>c\<in>set (cstr k). c = CHR ''/'' \<or> c = CHR 0x5C \<or> c = CHR ''.'' \<or> c = CHR '' '')"
  shows "\<not> clave_valida (Some k)"
  using assms by (auto simp: clave_valida_iff)

lemma snprintf_fits: "length text < cap \<Longrightarrow> snprintf response cap text = text"
  by (simp add: snprintf_def)

text \<open>
  Claim C1. When the key of a request is empty or holds \<^verbatim>\<open>/\<close>, \<^verbatim>\<open>\\<close>, \<^verbatim>\<open>.\<close> or a space, each of
  \<^verbatim>\<open>handle_set\<close>, \<^verbatim>\<open>handle_get\<close> and \<^verbatim>\<open>handle_del\<close> answers \<^verbatim>\<open>ERROR: Clave invalida\<close> and hands
  the file system back as it was, with no call recorded; so does \<^verbatim>\<open>run_request\<close> for each
  of the three commands.
\<close>

theorem invalid_key_rejected:
  assumes "cstr (key req) = []
      \<or> (\<exists>c\<in>set (cstr (key req)). c = CHR ''/'' \<or> c = CHR 0x5C \<or> c = CHR ''.'' \<or> c = CHR '' '')"
  shows "handle_set req response cap st = (snprintf response cap ''ERROR: Clave invalida\<newline>'', st)
       \<and> handle_get req response cap st = (snprintf response cap ''ERROR: Clave invalida\<newline>'', st)
       \<and> handle_del req response cap st = (snprintf response cap ''ERROR: Clave invalida\<newline>'', st)
       \<and> (cmd req \<noteq> CMD_INVALID \<longrightarrow>
            run_request ws req st = (write_all ws ''ERROR: Clave invalida\<newline>'', st))"
proof -
  have inv: "\<not> clave_valida (Some (key req))" using assms by (rule clave_valida_invalid)
  have msg: "cstr (snprintf [] BUFFER_SIZE ''ERROR: Clave invalida\<newline>'') = ''ERROR: Clave invalida\<newline>''"
    by (simp add: snprintf_def BUFFER_SIZE_def cstr_def NUL_def)
  show ?thesis
    using inv msg
    by (cases "cmd req") (simp_all add: handle_set_def handle_get_def handle_del_def run_request_def)
qed

theorem invalid_key_rejected_witness:
  "run_request [Written 22] \<lparr>cmd = CMD_SET, key = ''../etc/passwd'', val = ''x''\<rparr> empty_disk
     = (Some (22, ''ERROR: Clave invalida\<newline>'', []), empty_disk)"
proof -
  have k: "cstr ''../etc/passwd'' = ''../etc/passwd''" by (simp add: cstr_def NUL_def)
  have w: "write_all [Written 22] ''ERROR: Clave invalida\<newline>'' = Some (22, ''ERROR: Clave invalida\<newline>'', [])"
    by (simp add: write_all_def)
  show ?thesis
    using invalid_key_rejected [of "\<lparr>cmd = CMD_SET, key = ''../etc/passwd'', val = ''x''\<rparr>" "[]" BUFFER_SIZE empty_disk "[Written 22]"]
    by (simp add: k w)
qed

text \<open>
  Claim C6. On a valid key \<^verbatim>\<open>DEL\<close> answers \<^verbatim>\<open>OK\<close> whatever the file system holds and whether
  or not \<^verbatim>\<open>remove\<close> succeeds; a second \<^verbatim>\<open>DEL\<close> on the same key answers \<^verbatim>\<open>OK\<close> again. When
  there was no file for the key, or the file system lets the entry be removed, a \<^verbatim>\<open>GET\<close> on
  that key after them answers \<^verbatim>\<open>NOTFOUND\<close>.
\<close>

theorem del_idempotent:
  assumes "clave_valida (Some (key req))" and "key greq = key req"
  shows "\<exists>st1 st2. handle_del req [] BUFFER_SIZE st = (''OK\<newline>'', st1)
           \<and> handle_del req [] BUFFER_SIZE st1 = (''OK\<newline>'', st2)
           \<and> (files st (cstr (key req)) = None \<or> removable st (cstr (key req)) \<longrightarrow>
                fst (handle_get greq [] BUFFER_SIZE st2) = ''NOTFOUND\<newline>'')"
  using assms
  by (auto simp: handle_del_def handle_get_def snprintf_fits BUFFER_SIZE_def remove_file_def
      fopen_r_def record_call_def)

theorem del_idempotent_witness:
  "clave_valida (Some ''greeting'')
   \<and> files greeting_disk (cstr ''greeting'') = Some ''hello world''
   \<and> removable greeting_disk (cstr ''greeting'')
   \<and> (\<exists>st1 st2. handle_del \<lparr>cmd = CMD_DEL, key = ''greeting'', val = []\<rparr> [] BUFFER_SIZE greeting_disk = (''OK\<newline>'', st1)
           \<and> handle_del \<lparr>cmd = CMD_DEL, key = ''greeting'', val = []\<rparr> [] BUFFER_SIZE st1 = (''OK\<newline>'', st2)
           \<and> fst (handle_get \<lparr>cmd = CMD_GET, key = ''greeting'', val = []\<rparr> [] BUFFER_SIZE st2) = ''NOTFOUND\<newline>'')"
proof -
  have v: "clave_valida (Some ''greeting'')" by code_simp
  have k: "cstr ''greeting'' = ''greeting''" by code_simp
  have f: "files greeting_disk (cstr ''greeting'') = Some ''hello world''"
    by (simp add: k greeting_disk_def)
  have r: "removable greeting_disk (cstr ''greeting'')" by (simp add: greeting_disk_def)
  show ?thesis
    using v f r del_idempotent [of "\<lparr>cmd = CMD_DEL, key = ''greeting'', val = []\<rparr>"
        "\<lparr>cmd = CMD_GET, key = ''greeting'', val = []\<rparr>" greeting_disk]
    by auto
qed

text \<open>
  The condition on the file system is needed: where the entry may not be removed,
  \<^verbatim>\<open>remove\<close> fails, \<^verbatim>\<open>handle_del\<close> answers \<^verbatim>\<open>OK\<close> all the same, the file stays, and a \<^verbatim>\<open>GET\<close>
  after it answers with the content.
\<close>

lemma del_remove_refused_example:
  "handle_del \<lparr>cmd = CMD_DEL, key = ''greeting'', val = []\<rparr> [] BUFFER_SIZE locked_disk
     = (''OK\<newline>'', record_call (Remove ''greeting'') locked_disk)
   \<and> fst (handle_get \<lparr>cmd = CMD_GET, key = ''greeting'', val = []\<rparr> [] BUFFER_SIZE
            (record_call (Remove ''greeting'') locked_disk))
       = ''OK\<newline>hello world\<newline>''"
proof -
  have v: "clave_valida (Some ''greeting'')" by code_simp
  have k: "cstr ''greeting'' = ''greeting''" by code_simp
  have c: "take 1019 (cstr ''hello world'') = ''hello world''" by code_simp
  show ?thesis
    using v
    by (simp add: handle_del_def handle_get_def k c snprintf_fits BUFFER_SIZE_def remove_file_def
        fopen_r_def fread_def record_call_def locked_disk_def)
qed

text \<open>
  Claim C2. For a valid key and a value without NUL, in a directory where the file can be
  created: \<^verbatim>\<open>SET\<close> answers \<^verbatim>\<open>OK\<close>, and a \<^verbatim>\<open>GET\<close> on the same key then answers \<^verbatim>\<open>OK\<close>, a newline,
  the first \<^verbatim>\<open>BUFFER_SIZE - 5\<close> bytes of the value and a newline; a value of at most
  \<^verbatim>\<open>BUFFER_SIZE - 5\<close> bytes comes back whole, byte for byte.
\<close>

theorem set_get_roundtrip:
  assumes "clave_valida (Some (key req))" and "key greq = key req"
    and "NUL \<notin> set (val req)" and "creatable st (cstr (key req))"
  shows "\<exists>st1 st2. handle_set req [] BUFFER_SIZE st = (''OK\<newline>'', st1)
           \<and> handle_get greq [] BUFFER_SIZE st1
               = (''OK\<newline>'' @ take (BUFFER_SIZE - 5) (val req) @ ''\<newline>'', st2)
           \<and> (length (val req) \<le> BUFFER_SIZE - 5 \<longrightarrow>
                fst (handle_get greq [] BUFFER_SIZE st1) = ''OK\<newline>'' @ val req @ ''\<newline>'')"
proof -
  let ?k = "cstr (key req)" and ?v = "val req"
  have v: "cstr ?v = ?v" using assms(3) by (rule cstr_id)
  have n: "NUL \<notin> set (take 1023 ?v)" using assms(3) by (auto dest: in_set_takeD)
  have t: "take 1019 (cstr (take 1023 ?v)) = take 1019 ?v" by (simp add: cstr_id [OF n] min_def)
  have "length (''OK\<newline>'' @ take 1019 ?v @ ''\<newline>'') < 1024" by simp
  then have s: "snprintf [] 1024 (''OK\<newline>'' @ take 1019 ?v @ ''\<newline>'') = ''OK\<newline>'' @ take 1019 ?v @ ''\<newline>''"
    by (rule snprintf_fits)
  show ?thesis
    using assms(1,2,4) v t s
    by (simp add: handle_set_def handle_get_def snprintf_fits BUFFER_SIZE_def fopen_w_def fputs_def
        fclose_def fread_def fopen_r_def record_call_def)
qed

theorem set_get_roundtrip_witness:
  "\<exists>st1. handle_set \<lparr>cmd = CMD_SET, key = ''greeting'', val = ''hello world''\<rparr> [] BUFFER_SIZE empty_disk = (''OK\<newline>'', st1)
     \<and> fst (handle_get \<lparr>cmd = CMD_GET, key = ''greeting'', val = []\<rparr> [] BUFFER_SIZE st1)
          = ''OK\<newline>hello world\<newline>''"
proof -
  have v: "clave_valida (Some ''greeting'')" by code_simp
  have n: "NUL \<notin> set ''hello world''" by (simp add: NUL_def)
  have c: "creatable empty_disk (cstr ''greeting'')" by (simp add: empty_disk_def)
  show ?thesis
    using set_get_roundtrip [of "\<lparr>cmd = CMD_SET, key = ''greeting'', val = ''hello world''\<rparr>"
        "\<lparr>cmd = CMD_GET, key = ''greeting'', val = []\<rparr>" empty_disk] v n c
    by (auto simp: BUFFER_SIZE_def)
qed

subsection \<open>Responses to a request that does not parse\<close>

lemma parse_request_status:
  "fst (parse_request (Some b) (Some old)) \<in> {0, - 2, - 3, - 4, - 5}"
proof -
  obtain m c k v where sc: "sscanf_request (cstr b) = (m, c, k, v)"
    by (cases "sscanf_request (cstr b)") auto
  show ?thesis using parse_request_unfold [OF sc, of old] by (simp split: if_splits)
qed

text \<open>
  Claim C4 says that an input without a command gets a response of its own, distinct
  from the response to an unknown command. It does not: \<^verbatim>\<open>handle_client\<close> selects the same
  text for status \<open>-2\<close> and status \<open>-3\<close>. A single space parses with status \<open>-2\<close>, \<^verbatim>\<open>FOO\<close>
  with status \<open>-3\<close>, and both are answered \<^verbatim>\<open>ERROR: Comando invalido\<close>.
\<close>

theorem empty_input_counterexample:
  "fst (parse_request (Some '' '') (Some stack_req)) = - 2
   \<and> fst (parse_request (Some ''FOO'') (Some stack_req)) = - 3
   \<and> fst (handle_client \<lparr>incoming = Read_bytes '' '', writes = [Written 24]\<rparr> empty_disk)
       = Some \<lparr>sent = ''ERROR: Comando invalido\<newline>'', closed = True, diag = []\<rparr>
   \<and> fst (handle_client \<lparr>incoming = Read_bytes ''FOO'', writes = [Written 24]\<rparr> empty_disk)
       = Some \<lparr>sent = ''ERROR: Comando invalido\<newline>'', closed = True, diag = []\<rparr>"
  by code_simp

text \<open>
  Claim C4, amended. When the bytes read do not parse, \<^verbatim>\<open>handle_client\<close> writes the text
  selected by the status and leaves the file system alone: \<^verbatim>\<open>ERROR: Comando invalido\<close> for
  an input without a token and for an unknown command alike, \<^verbatim>\<open>ERROR: Falta clave\<close> for a
  missing key, \<^verbatim>\<open>ERROR: Falta valor\<close> for a missing value. The fourth text,
  \<^verbatim>\<open>ERROR: Formato invalido\<close>, is never selected there. The four texts are pairwise
  distinct.
\<close>

theorem parse_failure_messages:
  assumes "incoming c = Read_bytes d" and "d \<noteq> []"
    and "parse_request (Some (take (BUFFER_SIZE - 1) d)) (Some stack_req) = (status, r)"
    and "status \<noteq> 0"
  shows "handle_client c st = (after_write (write_all (writes c) (parse_error_msg status)), st)
       \<and> parse_error_msg status =
            (if status = - 2 \<or> status = - 3 then ''ERROR: Comando invalido\<newline>''
             else if status = - 4 then ''ERROR: Falta clave\<newline>''
             else ''ERROR: Falta valor\<newline>'')
       \<and> distinct [''ERROR: Comando invalido\<newline>'', ''ERROR: Falta clave\<newline>'',
            ''ERROR: Falta valor\<newline>'', ''ERROR: Formato invalido\<newline>'']"
proof -
  have "status \<in> {- 2, - 3, - 4, - 5}"
    using parse_request_status [of "take (BUFFER_SIZE - 1) d" stack_req] assms(3,4) by auto
  then have m: "parse_error_msg status =
            (if status = - 2 \<or> status = - 3 then ''ERROR: Comando invalido\<newline>''
             else if status = - 4 then ''ERROR: Falta clave\<newline>''
             else ''ERROR: Falta valor\<newline>'')"
    by (auto simp: parse_error_msg_def)
  have "take (BUFFER_SIZE - 1) d \<noteq> []" using assms(2) by (simp add: BUFFER_SIZE_def)
  then have h: "handle_client c st = (after_write (write_all (writes c) (parse_error_msg status)), st)"
    using assms(1,3,4) by (simp add: handle_client_def Let_def)
  show ?thesis using h m by simp
qed

theorem parse_failure_messages_witness:
  "handle_client \<lparr>incoming = Read_bytes ''GET'', writes = [Written 19]\<rparr> empty_disk
     = (Some \<lparr>sent = ''ERROR: Falta clave\<newline>'', closed = True, diag = []\<rparr>, empty_disk)"
proof -
  have p: "parse_request (Some (take (BUFFER_SIZE - 1) ''GET'')) (Some stack_req)
      = (- 4, Some \<lparr>cmd = CMD_GET, key = [], val = []\<rparr>)" by code_simp
  have w: "after_write (write_all [Written 19] ''ERROR: Falta clave\<newline>'')
      = Some \<lparr>sent = ''ERROR: Falta clave\<newline>'', closed = True, diag = []\<rparr>" by code_simp
  show ?thesis
    using parse_failure_messages [of "\<lparr>incoming = Read_bytes ''GET'', writes = [Written 19]\<rparr>"
        "''GET''" "- 4" "Some \<lparr>cmd = CMD_GET, key = [], val = []\<rparr>" empty_disk] p w
    by simp
qed

subsection \<open>The write loop\<close>

lemma write_loop_result:
  "write_loop ws p sofar len = Some (r, out, rest) \<Longrightarrow>
     (r = len \<and> out = sofar @ p)
     \<or> (r = - 1 \<and> Write_failed EOTHER \<in> set ws \<and> (\<exists>q. sofar @ p = out @ q))"
proof (induction ws p sofar len rule: write_loop.induct)
  case (1 ws sofar len)
  then show ?case by simp
next
  case (2 b p sofar len)
  then show ?case by simp
next
  case (3 e ws b p sofar len)
  then show ?case by (cases e) (auto split: if_splits)
next
  case (4 w ws b p sofar len)
  from 4 have "write_loop ws (drop w (b # p)) (sofar @ take w (b # p)) len = Some (r, out, rest)"
    by simp
  from "4.IH" [OF this] show ?case by (auto simp del: take_Suc_Cons drop_Suc_Cons)
qed

lemma write_loop_returns:
  assumes "\<forall>x\<in>set ws. progress x \<or> x = Write_failed EINTR"
    and "length p \<le> length (filter progress ws)"
  shows "\<exists>rest. write_loop ws p sofar len = Some (len, sofar @ p, rest)"
  using assms
proof (induction ws p sofar len rule: write_loop.induct)
  case (1 ws sofar len)
  then show ?case by simp
next
  case (2 b p sofar len)
  then show ?case by simp
next
  case (3 e ws b p sofar len)
  then show ?case by (cases e) auto
next
  case (4 w ws b p sofar len)
  from "4.prems" have w: "0 < w" by simp
  then have "length (drop w (b # p)) \<le> length p" by (cases w) auto
  with "4.prems" have "length (drop w (b # p)) \<le> length (filter progress ws)" by simp
  moreover from "4.prems" have "\<forall>x\<in>set ws. progress x \<or> x = Write_failed EINTR" by simp
  ultimately obtain rest where
    "write_loop ws (drop w (b # p)) (sofar @ take w (b # p)) len
       = Some (len, (sofar @ take w (b # p)) @ drop w (b # p), rest)"
    using "4.IH" by blast
  then show ?case by (simp del: take_Suc_Cons drop_Suc_Cons)
qed

text \<open>
  \<^verbatim>\<open>write_all\<close> of server2.c: when it returns, either it returns the length and the socket
  took every byte in order, or it returns \<open>-1\<close>, a call of \<^verbatim>\<open>write\<close> failed with an error
  other than \<^verbatim>\<open>EINTR\<close> and the socket took a prefix of the bytes. A call interrupted by
  \<^verbatim>\<open>EINTR\<close> is repeated with the same region. It returns the length once enough calls
  made progress and none failed otherwise.
\<close>

lemma write_all_complete:
  "(\<forall>r out rest. write_all ws buf = Some (r, out, rest) \<longrightarrow>
      (r = int (length buf) \<and> out = buf)
      \<or> (r = - 1 \<and> Write_failed EOTHER \<in> set ws \<and> (\<exists>q. buf = out @ q)))
   \<and> (buf \<noteq> [] \<longrightarrow> write_all (Write_failed EINTR # ws) buf = write_all ws buf)
   \<and> ((\<forall>x\<in>set ws. progress x \<or> x = Write_failed EINTR) \<and> length buf \<le> length (filter progress ws)
        \<longrightarrow> (\<exists>rest. write_all ws buf = Some (int (length buf), buf, rest)))"
proof (intro conjI allI impI)
  fix r out rest
  assume "write_all ws buf = Some (r, out, rest)"
  then show "(r = int (length buf) \<and> out = buf)
      \<or> (r = - 1 \<and> Write_failed EOTHER \<in> set ws \<and> (\<exists>q. buf = out @ q))"
    unfolding write_all_def by (auto dest!: write_loop_result)
next
  assume "buf \<noteq> []"
  then show "write_all (Write_failed EINTR # ws) buf = write_all ws buf"
    by (cases buf) (simp_all add: write_all_def)
next
  assume "(\<forall>x\<in>set ws. progress x \<or> x = Write_failed EINTR) \<and> length buf \<le> length (filter progress ws)"
  then show "\<exists>rest. write_all ws buf = Some (int (length buf), buf, rest)"
    unfolding write_all_def using write_loop_returns [of ws buf "[]" "int (length buf)"] by simp
qed

lemma write_all_complete_example:
  "write_all [Written 1, Write_failed EINTR, Written 2] ''OK\<newline>'' = Some (3, ''OK\<newline>'', [])
   \<and> write_all [Written 1, Write_failed EOTHER] ''OK\<newline>'' = Some (- 1, ''O'', [])"
proof -
  have a: "write_all [Written 1, Write_failed EINTR, Written 2] ''OK\<newline>'' = Some (3, ''OK\<newline>'', [])"
    by code_simp
  have b: "write_all [Written 1, Write_failed EOTHER] ''OK\<newline>'' = Some (- 1, ''O'', [])"
    by code_simp
  show ?thesis
    using a b write_all_complete [of "[Written 1, Write_failed EINTR, Written 2]" "''OK\<newline>''"]
    by simp
qed

text \<open>
  Claim C8 (every response is written by a retrying loop, a partial write is never
  dropped). servidor.c sends its response with one call of \<^verbatim>\<open>write\<close> and drops the result:
  when the socket takes one byte of the answer to \<^verbatim>\<open>DEL k\<close>, the peer gets \<^verbatim>\<open>O\<close>, the
  connection is closed and \<^verbatim>\<open>handle_command\<close> returns normally.
\<close>

theorem servidor_partial_write:
  "handle_command \<lparr>incoming = Read_bytes ''DEL k'', writes = [Written 1]\<rparr> no_junk empty_disk
     = Some (Returned \<lparr>sent = ''O'', closed = True, diag = []\<rparr> (remove_file ''k'' empty_disk))"
proof -
  have s: "servidor_sscanf (cstr ''DEL k'') = (2, Some ''DEL'', Some ''k'', None)"
    by code_simp
  have k: "servidor_clave_valida ''k''" by code_simp
  have c: "cstr ''DEL'' = ''DEL''" "cstr ''k'' = ''k''" by code_simp+
  have r: "cstr (snprintf [] 1024 ''OK\<newline>'') = ''OK\<newline>''" by code_simp
  show ?thesis
    by (simp add: handle_command_def Let_def BUFFER_SIZE_def s c k r reply_def write_once_def)
qed

subsection \<open>Errors and the life of the process\<close>

text \<open>
  server2.c: a failed or empty first read closes the connection without a response and
  the handler returns; a file that cannot be created is answered with
  \<^verbatim>\<open>ERROR: No se pudo crear\<close>; after a handler returns the loop goes on with the next turn.
\<close>

lemma server2_errors_not_fatal:
  "(incoming c = Read_failed e \<or> incoming c = Read_bytes [] \<longrightarrow>
      handle_client c st = (Some \<lparr>sent = [], closed = True, diag = [''read'']\<rparr>, st))
   \<and> (clave_valida (Some (key req)) \<and> \<not> creatable st (cstr (key req)) \<longrightarrow>
        fst (handle_set req [] BUFFER_SIZE st) = ''ERROR: No se pudo crear\<newline>'')
   \<and> (result ev = Accepted c \<and> handle_client c st = (Some out, st') \<longrightarrow>
        main_loop False (ev # evs) st log
          = main_loop (sigint_early ev \<or> sigint_late ev) evs st' (log @ [Served out]))"
  by (auto simp: handle_client_def handle_set_def fopen_w_def snprintf_fits BUFFER_SIZE_def)

text \<open>
  Claim C5 (no protocol, validation, storage or connection error ends the server
  process). servidor.c calls \<^verbatim>\<open>exit(EXIT_FAILURE)\<close> in \<^verbatim>\<open>handle_command\<close> when the first read
  gives no byte, and again when the file of a \<^verbatim>\<open>SET\<close> cannot be created.
\<close>

theorem servidor_read_failure_exits:
  "handle_command \<lparr>incoming = Read_bytes [], writes = []\<rparr> no_junk empty_disk
     = Some (Exited EXIT_FAILURE
         \<lparr>sent = [], closed = True, diag = [''Error al leer del cliente'']\<rparr> empty_disk)
   \<and> handle_command \<lparr>incoming = Read_bytes ''SET k v'', writes = [Written 3]\<rparr> no_junk full_disk
     = Some (Exited EXIT_FAILURE
         \<lparr>sent = [], closed = False, diag = [''No se pudo crear el archivo'']\<rparr>
         (record_call (Fopen_w ''k'') full_disk))"
proof -
  have s: "servidor_sscanf (cstr ''SET k v'') = (3, Some ''SET'', Some ''k'', Some ''v'')"
    by code_simp
  have k: "servidor_clave_valida ''k''" by code_simp
  have c: "cstr ''SET'' = ''SET''" "cstr ''k'' = ''k''" by code_simp+
  have f: "fopen_w ''k'' full_disk = (False, record_call (Fopen_w ''k'') full_disk)"
    by (simp add: fopen_w_def full_disk_def)
  show ?thesis
    by (simp add: handle_command_def Let_def BUFFER_SIZE_def s c k f)
qed

subsection \<open>Shutdown\<close>

lemma main_loop_sound:
  "main_loop g evs st log = Some (log', st', rest) \<Longrightarrow>
     \<exists>pre new. evs = pre @ rest \<and> log' = log @ new \<and> flag_set g pre
       \<and> length (filter served new) = length (filter accepted pre)"
proof (induction g evs st log rule: main_loop.induct)
  case (1 evs st log)
  then show ?case by (auto simp: flag_set_def)
next
  case (2 st log)
  then show ?case by simp
next
  case (3 ev evs st log)
  show ?case
  proof (cases "result ev")
    case (Accept_failed e)
    show ?thesis
    proof (cases "e = EINTR \<and> sigint_early ev")
      case True
      with 3(3) Accept_failed have "log' = log" "st' = st" "rest = evs" by auto
      moreover have "flag_set False [ev]" using True by (simp add: flag_set_def)
      moreover have "\<not> accepted ev" using Accept_failed by (simp add: accepted_def)
      ultimately show ?thesis by (intro exI [of _ "[ev]"] exI [of _ "[]"]) simp
    next
      case False
      with 3(3) Accept_failed
      have "main_loop (sigint_early ev \<or> sigint_late ev) evs st (log @ [Perror ''accept''])
              = Some (log', st', rest)" by auto
      from "3.IH"(2) [OF Accept_failed False this] obtain pre new
        where *: "evs = pre @ rest" "log' = (log @ [Perror ''accept'']) @ new"
          "flag_set (sigint_early ev \<or> sigint_late ev) pre"
          "length (filter served new) = length (filter accepted pre)" by blast
      have "flag_set False (ev # pre)" using *(3) by (auto simp: flag_set_def)
      moreover have "\<not> accepted ev" using Accept_failed by (simp add: accepted_def)
      ultimately show ?thesis
        using * by (intro exI [of _ "ev # pre"] exI [of _ "Perror ''accept'' # new"]) simp
    qed
  next
    case (Accepted c)
    obtain w st1 where h: "handle_client c st = (w, st1)" by (cases "handle_client c st")
    with 3(3) Accepted obtain out where w: "w = Some out" by (cases w) auto
    with 3(3) Accepted h
    have "main_loop (sigint_early ev \<or> sigint_late ev) evs st1 (log @ [Served out])
            = Some (log', st', rest)" by simp
    from "3.IH"(1) [OF Accepted h [symmetric] w this] obtain pre new
      where *: "evs = pre @ rest" "log' = (log @ [Served out]) @ new"
        "flag_set (sigint_early ev \<or> sigint_late ev) pre"
        "length (filter served new) = length (filter accepted pre)" by auto
    have "flag_set False (ev # pre)" using *(3) by (auto simp: flag_set_def)
    moreover have "accepted ev" using Accepted by (simp add: accepted_def)
    ultimately show ?thesis
      using * by (intro exI [of _ "ev # pre"] exI [of _ "Served out # new"]) simp
  qed
qed

lemma main_loop_live:
  "flag_set g evs \<Longrightarrow> handlers_return evs \<Longrightarrow> main_loop g evs st log \<noteq> None"
proof (induction g evs st log rule: main_loop.induct)
  case (1 evs st log)
  then show ?case by simp
next
  case (2 st log)
  then show ?case by (simp add: flag_set_def)
next
  case (3 ev evs st log)
  have hr: "handlers_return evs" using "3.prems"(2) by (simp add: handlers_return_def)
  have fl: "flag_set (sigint_early ev \<or> sigint_late ev) evs"
    using "3.prems"(1) by (auto simp: flag_set_def)
  show ?case
  proof (cases "result ev")
    case (Accept_failed e)
    show ?thesis
    proof (cases "e = EINTR \<and> sigint_early ev")
      case True
      with Accept_failed show ?thesis by simp
    next
      case False
      from "3.IH"(2) [OF Accept_failed False fl hr] False Accept_failed show ?thesis by auto
    qed
  next
    case (Accepted c)
    obtain w st1 where h: "handle_client c st = (w, st1)" by (cases "handle_client c st")
    have "fst (handle_client c st) \<noteq> None"
      using "3.prems"(2) Accepted by (simp add: handlers_return_def)
    with h obtain out where w: "w = Some out" by (cases w) auto
    from "3.IH"(1) [OF Accepted h [symmetric] w fl hr] Accepted h w
    show ?thesis by simp
  qed
qed


lemma main_loop_no_flag: "\<not> flag_set g evs \<Longrightarrow> main_loop g evs st log = None"
proof (rule ccontr)
  assume nf: "\<not> flag_set g evs" and "main_loop g evs st log \<noteq> None"
  then obtain log' st' rest where "main_loop g evs st log = Some (log', st', rest)" by auto
  from main_loop_sound [OF this] obtain pre where "evs = pre @ rest" "flag_set g pre" by blast
  then have "flag_set g evs" by (auto simp: flag_set_def)
  with nf show False by simp
qed

lemma main_started:
  "socket_ok su \<and> setsockopt_ok su \<and> bind_ok su \<and> listen_ok su \<Longrightarrow>
   main su g evs st =
     (case main_loop g evs st [] of
        None \<Rightarrow> None
      | Some (l, st', rest) \<Rightarrow>
          Some \<lparr>exit_status = 0, listener_closed = True,
                stdout = [''Servidor clave-valor escuchando en el puerto 5000...\<newline>'',
                          ''Cerrando servidor ordenadamente.\<newline>''],
                trace = l, disk = st'\<rparr>)"
  by (simp add: main_def)

text \<open>
  Claim C9. After a start-up without failure, \<^verbatim>\<open>main\<close> returns exactly when \<^verbatim>\<open>g_stop\<close> is
  observed. If it returns, the status is \<^verbatim>\<open>EXIT_SUCCESS\<close>, the listening socket is closed,
  \<^verbatim>\<open>g_stop\<close> was set during the turns consumed and every client accepted in them was
  served. If \<^verbatim>\<open>g_stop\<close> is never set it does not return; if it is set and the handlers
  return, it returns. With \<^verbatim>\<open>g_stop\<close> set before a turn, \<^verbatim>\<open>accept\<close> is not called. An
  \<^verbatim>\<open>accept\<close> interrupted by the signal ends the loop at once. A signal that arrives while a
  client is being handled ends the loop only after that client was served.
\<close>

theorem orderly_shutdown:
  assumes "socket_ok su \<and> setsockopt_ok su \<and> bind_ok su \<and> listen_ok su"
  shows
   "(\<forall>e. main su g evs st = Some e \<longrightarrow>
        exit_status e = EXIT_SUCCESS \<and> listener_closed e
        \<and> (\<exists>pre rest. evs = pre @ rest \<and> flag_set g pre
              \<and> length (filter served (trace e)) = length (filter accepted pre)))
    \<and> (\<not> flag_set g evs \<longrightarrow> main su g evs st = None)
    \<and> (flag_set g evs \<and> handlers_return evs \<longrightarrow> main su g evs st \<noteq> None)
    \<and> (g \<longrightarrow> (\<exists>e. main su g evs st = Some e \<and> trace e = [] \<and> disk e = st))
    \<and> (\<forall>ev. result ev = Accept_failed EINTR \<and> sigint_early ev \<longrightarrow>
          (\<exists>e. main su False (ev # evs) st = Some e \<and> trace e = [] \<and> disk e = st))
    \<and> (\<forall>ev c out st'. result ev = Accepted c \<and> handle_client c st = (Some out, st')
            \<and> (sigint_early ev \<or> sigint_late ev) \<longrightarrow>
          (\<exists>e. main su False (ev # evs) st = Some e \<and> trace e = [Served out] \<and> disk e = st'))"
proof (intro conjI allI impI)
  fix e
  assume m: "main su g evs st = Some e"
  then obtain l st' rest where ml: "main_loop g evs st [] = Some (l, st', rest)"
    and e: "e = \<lparr>exit_status = 0, listener_closed = True,
                stdout = [''Servidor clave-valor escuchando en el puerto 5000...\<newline>'',
                          ''Cerrando servidor ordenadamente.\<newline>''],
                trace = l, disk = st'\<rparr>"
    unfolding main_started [OF assms] by (auto split: option.splits)
  show "exit_status e = EXIT_SUCCESS" using e by (simp add: EXIT_SUCCESS_def)
  show "listener_closed e" using e by simp
  from main_loop_sound [OF ml] e
  show "\<exists>pre rest. evs = pre @ rest \<and> flag_set g pre
      \<and> length (filter served (trace e)) = length (filter accepted pre)" by auto
next
  assume "\<not> flag_set g evs"
  then show "main su g evs st = None"
    unfolding main_started [OF assms] by (simp add: main_loop_no_flag)
next
  assume "flag_set g evs \<and> handlers_return evs"
  then have "main_loop g evs st [] \<noteq> None" by (simp add: main_loop_live)
  then show "main su g evs st \<noteq> None"
    unfolding main_started [OF assms] by (auto split: option.splits)
next
  assume g
  then show "\<exists>e. main su g evs st = Some e \<and> trace e = [] \<and> disk e = st"
    unfolding main_started [OF assms] by simp
next
  fix ev :: accept_event
  assume "result ev = Accept_failed EINTR \<and> sigint_early ev"
  then show "\<exists>e. main su False (ev # evs) st = Some e \<and> trace e = [] \<and> disk e = st"
    unfolding main_started [OF assms] by simp
next
  fix ev :: accept_event and c out st'
  assume "result ev = Accepted c \<and> handle_client c st = (Some out, st')
      \<and> (sigint_early ev \<or> sigint_late ev)"
  then show "\<exists>e. main su False (ev # evs) st = Some e \<and> trace e = [Served out] \<and> disk e = st'"
    unfolding main_started [OF assms] by auto
qed

theorem orderly_shutdown_witness:
  "flag_set False
     [\<lparr>result = Accepted hangup, sigint_early = True, sigint_late = False\<rparr>,
      \<lparr>result = Accepted hangup, sigint_early = False, sigint_late = False\<rparr>]
   \<and> handlers_return
     [\<lparr>result = Accepted hangup, sigint_early = True, sigint_late = False\<rparr>,
      \<lparr>result = Accepted hangup, sigint_early = False, sigint_late = False\<rparr>]
   \<and> (\<exists>e. main good_start False
          [\<lparr>result = Accepted hangup, sigint_early = True, sigint_late = False\<rparr>,
           \<lparr>result = Accepted hangup, sigint_early = False, sigint_late = False\<rparr>] empty_disk = Some e
       \<and> exit_status e = EXIT_SUCCESS \<and> listener_closed e
       \<and> trace e = [Served \<lparr>sent = [], closed = True, diag = [''read'']\<rparr>])"
proof -
  have s: "socket_ok good_start \<and> setsockopt_ok good_start \<and> bind_ok good_start \<and> listen_ok good_start"
    by (simp add: good_start_def)
  have h: "handle_client hangup st
      = (Some \<lparr>sent = [], closed = True, diag = [''read'']\<rparr>, st)" for st
    by (simp add: handle_client_def hangup_def)
  let ?ev = "\<lparr>result = Accepted hangup, sigint_early = True, sigint_late = False\<rparr>"
  let ?evs = "[\<lparr>result = Accepted hangup, sigint_early = False, sigint_late = False\<rparr>]"
  have f: "flag_set False (?ev # ?evs)" by (simp add: flag_set_def)
  have r: "handlers_return (?ev # ?evs)" by (simp add: handlers_return_def h)
  note t = orderly_shutdown [OF s, of False "?ev # ?evs" empty_disk]
  note u = orderly_shutdown [OF s, of False ?evs empty_disk]
  from t f r have "main good_start False (?ev # ?evs) empty_disk \<noteq> None" by blast
  then obtain e where e: "main good_start False (?ev # ?evs) empty_disk = Some e" by blast
  from u have "\<forall>ev c out st'. result ev = Accepted c \<and> handle_client c empty_disk = (Some out, st')
            \<and> (sigint_early ev \<or> sigint_late ev) \<longrightarrow>
          (\<exists>e. main good_start False (ev # ?evs) empty_disk = Some e \<and> trace e = [Served out]
             \<and> disk e = st')"
    by blast
  from this [rule_format, of ?ev hangup "\<lparr>sent = [], closed = True, diag = [''read'']\<rparr>" empty_disk]
    h [of empty_disk] e
  have tr: "trace e = [Served \<lparr>sent = [], closed = True, diag = [''read'']\<rparr>]"
    by auto
  from t e have "exit_status e = EXIT_SUCCESS \<and> listener_closed e" by blast
  with e tr f r show ?thesis by blast
qed

end
